theory Spec2Isabelle
  imports Complex_Main
begin

section \<open>The no-drone-zone violation monitor\<close>

text \<open>
  A shallow embedding of \<^verbatim>\<open>backend/src/NDZviolationMonitoring.ts\<close>, class
  \<^verbatim>\<open>NDZViolationMonitor\<close>. The repository holds two versions of the class: the later
  one (with \<^verbatim>\<open>_lastUpdatedAt\<close> and \<^verbatim>\<open>updateViolations\<close>) keeps the source's names
  here, the earlier one (with \<^verbatim>\<open>addOrUpdateViolations\<close>) has its \<^verbatim>\<open>checkNewViolations\<close>
  suffixed \<open>_v1\<close>.

  Conventions of the embedding:
  \<^item> a JavaScript number that is a position or a distance is a \<open>real\<close>: a distance is
    the exact square root, not its rounding to a double;
  \<^item> a \<^verbatim>\<open>Date\<close> is its \<^verbatim>\<open>getTime()\<close>, an \<open>int\<close> of milliseconds (every date is a
    valid one);
  \<^item> \<^verbatim>\<open>null\<close> is \<open>None\<close>; an exception is a value of \<open>jsError\<close>;
  \<^item> the body of a drone report is the list of its \<^verbatim>\<open><drone>\<close> elements, and
    \<^verbatim>\<open>xmlParser.parse\<close> gives the class what a parser with the options of the class gives:
    an array for two or more elements, the one object for one, no property for none;
  \<^item> the violation objects are mutated in place by the source; the array
    \<^verbatim>\<open>this.violations\<close> is a list and an object reference is an index into it;
  \<^item> the network is an input: what the two endpoints answer in one call of
    \<^verbatim>\<open>checkNewViolations\<close>, and the wall-clock readings taken in that call;
  \<^item> a call of \<^verbatim>\<open>checkNewViolations\<close> runs from its first line to its last with no
    other callback of the monitor in between (its \<^verbatim>\<open>await\<close>s are not interleaved).
\<close>

subsection \<open>Data\<close>

record pilotInfo =
  firstName :: string
  lastName :: string
  phoneNumber :: string
  email :: string

text \<open>One \<^verbatim>\<open>drone\<close> entry of the parsed report.\<close>

record drone =
  serialNumber :: string
  positionX :: real
  positionY :: real

text \<open>
  The body of a report as the endpoint sends it: the attribute \<^verbatim>\<open>snapshotTimestamp\<close> of
  its \<^verbatim>\<open>capture\<close> element, already read as a date, and the \<^verbatim>\<open><drone>\<close> elements of the
  capture, in order.
\<close>

record capture =
  snapshotTimestamp :: int
  drones :: "drone list"

text \<open>
  The value of \<^verbatim>\<open>droneReport.report.capture.drone\<close>. The class builds its \<^verbatim>\<open>XMLParser\<close> with
  \<^verbatim>\<open>ignoreAttributes: false\<close> and \<^verbatim>\<open>attributeNamePrefix\<close> only. Without the option
  \<^verbatim>\<open>isArray\<close> the parser of the library gives an array for a tag that occurs two or more
  times, the object itself for a tag that occurs once, and no property for a tag that
  does not occur. The class reads the value with the unchecked cast \<^verbatim>\<open>as any[]\<close>.
\<close>

datatype droneProperty = Undefined | Object drone | Array "drone list"

text \<open>\<^verbatim>\<open>droneReport.report.capture\<close>: \<^verbatim>\<open>capture["@_snapshotTimestamp"]\<close> and \<^verbatim>\<open>capture.drone\<close>.\<close>

record droneReport =
  at_snapshotTimestamp :: int
  drone :: droneProperty

text \<open>\<^verbatim>\<open>interface NDZViolation\<close>.\<close>

record NDZViolation =
  serialNumber :: string
  closestDistanceInMm :: real
  pilot :: "pilotInfo option"
  latestCaptureDateAndTime :: int

text \<open>
  What \<^verbatim>\<open>axios.get\<close> of the drone report does inside \<^verbatim>\<open>fetchDrones\<close>: it resolves and the
  body parses; it fails with an axios error whose response has status 429; it fails in
  any other way.
\<close>

datatype fetchOutcome = Parsed capture | RateLimited | OtherError

text \<open>
  One entry of \<^verbatim>\<open>Promise.allSettled(requests)\<close> in \<^verbatim>\<open>fetchPilots\<close>: rejected, or
  fulfilled with \<^verbatim>\<open>response.status\<close> and \<^verbatim>\<open>response.data\<close>. The data is \<open>None\<close> when the
  body is \<^verbatim>\<open>null\<close> or \<^verbatim>\<open>undefined\<close>, which the destructuring parameter
  \<^verbatim>\<open>({ firstName, lastName, phoneNumber, email }) => ...\<close> cannot take: it throws a
  TypeError.
\<close>

datatype settled = Rejected | Fulfilled nat "pilotInfo option"

datatype jsError = TypeError

text \<open>\<^verbatim>\<open>this.xmlParser.parse(XMLresponse.data)\<close>.\<close>

fun droneValue :: "drone list \<Rightarrow> droneProperty" where
  "droneValue [] = Undefined"
| "droneValue [d] = Object d"
| "droneValue ds = Array ds"

definition xmlParser_parse :: "capture \<Rightarrow> droneReport" where
  "xmlParser_parse body =
     \<lparr>at_snapshotTimestamp = snapshotTimestamp body, drone = droneValue (drones body)\<rparr>"

text \<open>
  The environment of one call of \<^verbatim>\<open>checkNewViolations\<close>: the answer to the drone report
  request and the wall-clock time at which it arrives, the outcome of the \<open>i\<close>-th pilot
  request (for the serial number it asks about), and the wall-clock time read by the
  last line's \<^verbatim>\<open>new Date()\<close>.
\<close>

record network =
  dronesResponse :: fetchOutcome
  responseTime :: int
  pilotResponse :: "nat \<Rightarrow> string \<Rightarrow> settled"
  finishTime :: int

text \<open>
  The fields of the monitor that change: \<^verbatim>\<open>violations\<close>, \<^verbatim>\<open>_lastUpdatedAt\<close> and
  \<^verbatim>\<open>throttle\<close>; with them the two effects the class has outside its fields: the
  deadlines of the pending \<^verbatim>\<open>setTimeout(() => (this.throttle = false), 6000)\<close> callbacks,
  and the URLs requested with \<^verbatim>\<open>axios.get\<close> so far, in order.
\<close>

record monitor =
  violations :: "NDZViolation list"
  lastUpdatedAt :: "int option"
  throttle :: bool
  timeouts :: "int list"
  requests :: "string list"

text \<open>The monitor as the constructor leaves it.\<close>

definition newMonitor :: monitor where
  "newMonitor =
     \<lparr>violations = [], lastUpdatedAt = None, throttle = False, timeouts = [], requests = []\<rparr>"

subsection \<open>Constants\<close>

definition minToStoreViolationFor :: int where
  "minToStoreViolationFor = 10"

definition NDZRadiusInMm :: real where
  "NDZRadiusInMm = 100000"

definition NDZcenterPosX :: real where
  "NDZcenterPosX = 250000"

definition NDZcenterPosY :: real where
  "NDZcenterPosY = 250000"

definition dronesUrl :: string where
  "dronesUrl = ''https://assignments.reaktor.com/birdnest/drones''"

definition pilotUrl :: "string \<Rightarrow> string" where
  "pilotUrl sn = ''https://assignments.reaktor.com/birdnest/pilots/'' @ sn"

subsection \<open>fetchDrones, calcDistanceToNDZcenter, fetchPilots\<close>

text \<open>
  \<^verbatim>\<open>fetchDrones\<close> returns the parsed report, or \<^verbatim>\<open>null\<close> after any failure; on status 429
  it sets the throttle and schedules its reset 6000 ms after the answer arrived.
\<close>

definition fetchDrones :: "network \<Rightarrow> monitor \<Rightarrow> droneReport option \<times> monitor" where
  "fetchDrones net s =
     (let s1 = s\<lparr>requests := requests s @ [dronesUrl]\<rparr> in
      case dronesResponse net of
        Parsed body \<Rightarrow> (Some (xmlParser_parse body), s1)
      | RateLimited \<Rightarrow>
          (None, s1\<lparr>throttle := True, timeouts := timeouts s1 @ [responseTime net + 6000]\<rparr>)
      | OtherError \<Rightarrow> (None, s1))"

definition calcDistanceToNDZcenter :: "drone \<Rightarrow> real" where
  "calcDistanceToNDZcenter d =
     (let x = positionX d - NDZcenterPosX;
          y = positionY d - NDZcenterPosY
      in sqrt (\<bar>x\<bar> ^ 2 + \<bar>y\<bar> ^ 2))"

text \<open>The callback of \<^verbatim>\<open>results.map\<close> in \<^verbatim>\<open>fetchPilots\<close>.\<close>

fun resultToPilot :: "settled \<Rightarrow> jsError + pilotInfo option" where
  "resultToPilot Rejected = Inr None"
| "resultToPilot (Fulfilled status body) =
     (if status = 200
      then (case body of None \<Rightarrow> Inl TypeError | Some p \<Rightarrow> Inr (Some p))
      else Inr None)"

text \<open>\<^verbatim>\<open>results.map\<close>: the first exception of the callback ends the map.\<close>

fun mapResults :: "settled list \<Rightarrow> jsError + pilotInfo option list" where
  "mapResults [] = Inr []"
| "mapResults (r # rs) =
     (case resultToPilot r of
        Inl e \<Rightarrow> Inl e
      | Inr p \<Rightarrow> (case mapResults rs of Inl e \<Rightarrow> Inl e | Inr ps \<Rightarrow> Inr (p # ps)))"

text \<open>\<^verbatim>\<open>Promise.allSettled\<close> of one request per serial number, in the order of the input.\<close>

definition allSettled :: "(nat \<Rightarrow> string \<Rightarrow> settled) \<Rightarrow> string list \<Rightarrow> settled list" where
  "allSettled respond droneSerialNumbers =
     map (\<lambda>(i, sn). respond i sn) (enumerate 0 droneSerialNumbers)"

text \<open>\<^verbatim>\<open>fetchPilots\<close>: the \<^verbatim>\<open>catch\<close> turns an exception into \<^verbatim>\<open>null\<close>.\<close>

definition fetchPilots ::
  "(nat \<Rightarrow> string \<Rightarrow> settled) \<Rightarrow> string list \<Rightarrow> pilotInfo option list option" where
  "fetchPilots respond droneSerialNumbers =
     (case mapResults (allSettled respond droneSerialNumbers) of
        Inl e \<Rightarrow> None
      | Inr pilots \<Rightarrow> Some pilots)"

subsection \<open>The later version: checkNewViolations and updateViolations\<close>

text \<open>
  The local constants of \<^verbatim>\<open>checkNewViolations\<close>, as functions of the array \<^verbatim>\<open>droneCapture\<close>
  (and of the violations recorded so far).
\<close>

definition distToNDZCenterPerDrone :: "drone list \<Rightarrow> (string \<times> real) list" where
  "distToNDZCenterPerDrone droneCapture =
     map (\<lambda>d. (drone.serialNumber d, calcDistanceToNDZcenter d)) droneCapture"

definition tooCloseDistPerDrone :: "drone list \<Rightarrow> (string \<times> real) list" where
  "tooCloseDistPerDrone droneCapture =
     filter (\<lambda>(sn, distance). distance \<le> NDZRadiusInMm) (distToNDZCenterPerDrone droneCapture)"

definition existingSerialNumbers :: "NDZViolation list \<Rightarrow> string list" where
  "existingSerialNumbers vs = map serialNumber vs"

definition tooCloseDistPerNewDrone ::
  "NDZViolation list \<Rightarrow> drone list \<Rightarrow> (string \<times> real) list" where
  "tooCloseDistPerNewDrone vs droneCapture =
     filter (\<lambda>(sn, distance). sn \<notin> set (existingSerialNumbers vs))
       (tooCloseDistPerDrone droneCapture)"

definition newViolations ::
  "int \<Rightarrow> (string \<times> real) list \<Rightarrow> pilotInfo option list \<Rightarrow> NDZViolation list" where
  "newViolations dateAndTime new newPilots =
     map (\<lambda>((sn, distance), p).
            \<lparr>serialNumber = sn, closestDistanceInMm = distance, pilot = p,
             latestCaptureDateAndTime = dateAndTime\<rparr>)
       (zip new newPilots)"

text \<open>
  \<^verbatim>\<open>Object.fromEntries(this.violations.map((violation) => [violation.serialNumber,
  violation]))\<close>: for each serial number the last violation of the array that has it,
  as a reference.
\<close>

definition serialNumberViolationMap :: "NDZViolation list \<Rightarrow> string \<rightharpoonup> nat" where
  "serialNumberViolationMap vs = map_of (rev (zip (map serialNumber vs) [0..<length vs]))"

text \<open>The two assignments both versions make to a violation that exists already.\<close>

definition refresh :: "real \<Rightarrow> int \<Rightarrow> NDZViolation \<Rightarrow> NDZViolation" where
  "refresh distance dateAndTime violation =
     violation
       \<lparr>latestCaptureDateAndTime := dateAndTime,
        closestDistanceInMm :=
          (if distance \<le> closestDistanceInMm violation then distance
           else closestDistanceInMm violation)\<rparr>"

text \<open>The body of the loop of \<^verbatim>\<open>updateViolations\<close>.\<close>

definition updateViolation ::
  "(string \<rightharpoonup> nat) \<Rightarrow> int \<Rightarrow> NDZViolation list \<Rightarrow> string \<times> real \<Rightarrow> NDZViolation list" where
  "updateViolation m dateAndTime vs distAndDrone =
     (case m (fst distAndDrone) of
        None \<Rightarrow> vs
      | Some i \<Rightarrow> vs[i := refresh (snd distAndDrone) dateAndTime (vs ! i)])"

definition updateViolations ::
  "(string \<times> real) list \<Rightarrow> int \<Rightarrow> NDZViolation list \<Rightarrow> NDZViolation list" where
  "updateViolations distancePerDrone dateAndTime vs =
     foldl (updateViolation (serialNumberViolationMap vs) dateAndTime) vs distancePerDrone"

text \<open>
  \<^verbatim>\<open>checkNewViolations\<close>: how the promise of the call settles (\<open>None\<close> when it is fulfilled,
  the exception when it is rejected) and the monitor after the call. The line
  \<^verbatim>\<open>if (!droneCapture.length) return;\<close> throws when \<^verbatim>\<open>droneCapture\<close> is \<^verbatim>\<open>undefined\<close>, returns
  when it is one drone object (whose \<^verbatim>\<open>length\<close> is \<^verbatim>\<open>undefined\<close>) or an empty array, and lets
  the call go on when it is an array with an element.
\<close>

definition checkNewViolations :: "network \<Rightarrow> monitor \<Rightarrow> jsError option \<times> monitor" where
  "checkNewViolations net s =
     (if throttle s then (None, s)
      else case fetchDrones net s of
        (None, s1) \<Rightarrow> (None, s1)
      | (Some droneReport, s1) \<Rightarrow>
          (case drone droneReport of
             Undefined \<Rightarrow> (Some TypeError, s1)
           | Object d \<Rightarrow> (None, s1)
           | Array droneCapture \<Rightarrow>
               if droneCapture = [] then (None, s1)
               else if tooCloseDistPerDrone droneCapture = [] then (None, s1)
               else
                 let new = tooCloseDistPerNewDrone (violations s1) droneCapture;
                     s2 = s1\<lparr>requests :=
                            requests s1 @ map (\<lambda>(sn, distance). pilotUrl sn) new\<rparr>
                 in case fetchPilots (pilotResponse net) (map fst new) of
                      None \<Rightarrow> (None, s2)
                    | Some newPilots \<Rightarrow>
                        (None,
                         s2\<lparr>violations :=
                              updateViolations (distToNDZCenterPerDrone droneCapture)
                                (at_snapshotTimestamp droneReport)
                                (violations s2 @
                                 newViolations (at_snapshotTimestamp droneReport) new newPilots),
                            lastUpdatedAt := Some (finishTime net)\<rparr>)))"

subsection \<open>The earlier version: checkNewViolations and addOrUpdateViolations\<close>

text \<open>\<^verbatim>\<open>Array.prototype.find\<close>, as the index of the first element found.\<close>

fun findIndex :: "('a \<Rightarrow> bool) \<Rightarrow> 'a list \<Rightarrow> nat option" where
  "findIndex P [] = None"
| "findIndex P (x # xs) =
     (if P x then Some 0 else map_option Suc (findIndex P xs))"

text \<open>The body of the loop of \<^verbatim>\<open>addOrUpdateViolations\<close>.\<close>

definition addOrUpdateViolation :: "NDZViolation list \<Rightarrow> NDZViolation \<Rightarrow> NDZViolation list" where
  "addOrUpdateViolation vs violation =
     (case findIndex (\<lambda>v. serialNumber v = serialNumber violation) vs of
        Some i \<Rightarrow>
          vs[i := refresh (closestDistanceInMm violation)
                    (latestCaptureDateAndTime violation) (vs ! i)]
      | None \<Rightarrow> vs @ [violation])"

definition addOrUpdateViolations :: "NDZViolation list \<Rightarrow> NDZViolation list \<Rightarrow> NDZViolation list" where
  "addOrUpdateViolations violations' vs = foldl addOrUpdateViolation vs violations'"

text \<open>\<^verbatim>\<open>pilots && pilots[index] ? pilots[index] : null\<close> for every index.\<close>

definition pilotsOrNull :: "pilotInfo option list option \<Rightarrow> nat \<Rightarrow> pilotInfo option list" where
  "pilotsOrNull pilots n =
     (case pilots of None \<Rightarrow> replicate n None | Some ps \<Rightarrow> ps)"

definition checkNewViolations_v1 :: "network \<Rightarrow> monitor \<Rightarrow> jsError option \<times> monitor" where
  "checkNewViolations_v1 net s =
     (if throttle s then (None, s)
      else case fetchDrones net s of
        (None, s1) \<Rightarrow> (None, s1)
      | (Some droneReport, s1) \<Rightarrow>
          (case drone droneReport of
             Undefined \<Rightarrow> (Some TypeError, s1)
           | Object d \<Rightarrow> (None, s1)
           | Array droneCapture \<Rightarrow>
               if droneCapture = [] then (None, s1)
               else if tooCloseDistPerDrone droneCapture = [] then (None, s1)
               else
                 let tooClose = tooCloseDistPerDrone droneCapture;
                     s2 = s1\<lparr>requests :=
                            requests s1 @ map (\<lambda>(sn, distance). pilotUrl sn) tooClose\<rparr>;
                     pilots = fetchPilots (pilotResponse net) (map fst tooClose)
                 in (None,
                     s2\<lparr>violations :=
                          addOrUpdateViolations
                            (newViolations (at_snapshotTimestamp droneReport) tooClose
                               (pilotsOrNull pilots (length tooClose)))
                            (violations s2)\<rparr>)))"

subsection \<open>removeTooOldViolations and the timer callbacks\<close>

text \<open>\<open>now\<close> is the reading of \<^verbatim>\<open>new Date().getTime()\<close> during the pass.\<close>

definition msToStoreFor :: int where
  "msToStoreFor = minToStoreViolationFor * 60 * 1000"

definition stillFresh :: "int \<Rightarrow> NDZViolation \<Rightarrow> bool" where
  "stillFresh now violation =
     (let timeDiff = now - latestCaptureDateAndTime violation in timeDiff \<le> msToStoreFor)"

definition removeTooOldViolations :: "int \<Rightarrow> monitor \<Rightarrow> monitor" where
  "removeTooOldViolations now s = s\<lparr>violations := filter (stillFresh now) (violations s)\<rparr>"

text \<open>
  The runtime at wall-clock time \<open>now\<close>: every pending \<^verbatim>\<open>() => (this.throttle = false)\<close>
  whose deadline has come runs and is no longer pending.
\<close>

definition runTimeouts :: "int \<Rightarrow> monitor \<Rightarrow> monitor" where
  "runTimeouts now s =
     (if list_ex (\<lambda>deadline. deadline \<le> now) (timeouts s)
      then s\<lparr>throttle := False, timeouts := filter (\<lambda>deadline. now < deadline) (timeouts s)\<rparr>
      else s)"

subsection \<open>Runs of the monitor\<close>

text \<open>
  \<^verbatim>\<open>start\<close> makes the runtime call \<^verbatim>\<open>checkNewViolations\<close> and \<^verbatim>\<open>removeTooOldViolations\<close>
  again and again, and \<^verbatim>\<open>fetchDrones\<close> makes it call the throttle reset. A run is any
  sequence of these calls, each with its environment. Nothing awaits the promise of
  \<^verbatim>\<open>checkNewViolations\<close>: a step keeps the monitor the call leaves.
\<close>

datatype version = Earlier | Later

datatype event = Check network | RemoveTooOld int | Timeout int

fun step :: "version \<Rightarrow> event \<Rightarrow> monitor \<Rightarrow> monitor" where
  "step Later (Check net) s = snd (checkNewViolations net s)"
| "step Earlier (Check net) s = snd (checkNewViolations_v1 net s)"
| "step ver (RemoveTooOld now) s = removeTooOldViolations now s"
| "step ver (Timeout now) s = runTimeouts now s"

fun run :: "version \<Rightarrow> event list \<Rightarrow> monitor \<Rightarrow> monitor" where
  "run ver [] s = s"
| "run ver (e # es) s = run ver es (step ver e s)"

text \<open>
  Where the violation object at index \<open>i\<close> of the array is after a run: a check leaves it
  in place (it only appends), a removal pass moves it down by the number of objects removed
  before it, or ends its life.
\<close>

fun follow :: "version \<Rightarrow> event list \<Rightarrow> monitor \<Rightarrow> nat \<Rightarrow> nat option" where
  "follow ver [] s i = (if i < length (violations s) then Some i else None)"
| "follow ver (RemoveTooOld now # es) s i =
     (if i < length (violations s) \<and> stillFresh now (violations s ! i)
      then follow ver es (removeTooOldViolations now s)
             (length (filter (stillFresh now) (take i (violations s))))
      else None)"
| "follow ver (e # es) s i =
     (if i < length (violations s) then follow ver es (step ver e s) i else None)"

subsection \<open>The same violation object, later\<close>

text \<open>
  \<open>keeps v v'\<close>: \<open>v'\<close> has the serial number and the pilot of \<open>v\<close>, and a closest distance
  that is not larger.
\<close>

definition keeps :: "NDZViolation \<Rightarrow> NDZViolation \<Rightarrow> bool" where
  "keeps v v' \<longleftrightarrow>
     serialNumber v' = serialNumber v \<and> pilot v' = pilot v \<and>
     closestDistanceInMm v' \<le> closestDistanceInMm v"

subsection \<open>The cooldown\<close>


subsection \<open>Snapshots that list no serial number twice\<close>

text \<open>
  A check is free of duplicates when the drones of its snapshot that are within the
  radius have serial numbers that differ from each other.
\<close>

fun duplicateFree :: "event \<Rightarrow> bool" where
  "duplicateFree (Check net) =
     (case dronesResponse net of
        Parsed body \<Rightarrow> distinct (map fst (tooCloseDistPerDrone (drones body)))
      | RateLimited \<Rightarrow> True
      | OtherError \<Rightarrow> True)"
| "duplicateFree e = True"

subsection \<open>Example data\<close>

definition ada :: pilotInfo where
  "ada = \<lparr>firstName = ''Ada'', lastName = ''Lovelace'', phoneNumber = ''+358401234567'',
           email = ''ada@example.com''\<rparr>"

definition droneAt :: "string \<Rightarrow> real \<Rightarrow> real \<Rightarrow> drone" where
  "droneAt sn x y = \<lparr>drone.serialNumber = sn, positionX = x, positionY = y\<rparr>"

text \<open>A report with snapshot timestamp \<open>t\<close> that arrives 100 ms later; the call of
  \<^verbatim>\<open>checkNewViolations\<close> ends 200 ms after the snapshot.\<close>

definition answers :: "int \<Rightarrow> drone list \<Rightarrow> (nat \<Rightarrow> string \<Rightarrow> settled) \<Rightarrow> network" where
  "answers t ds respond =
     \<lparr>dronesResponse = Parsed \<lparr>snapshotTimestamp = t, drones = ds\<rparr>,
      responseTime = t + 100, pilotResponse = respond, finishTime = t + 200\<rparr>"


definition tracking :: "NDZViolation list \<Rightarrow> monitor" where
  "tracking vs = newMonitor\<lparr>violations := vs\<rparr>"

definition violationOf :: "string \<Rightarrow> real \<Rightarrow> pilotInfo option \<Rightarrow> int \<Rightarrow> NDZViolation" where
  "violationOf sn distance p t =
     \<lparr>serialNumber = sn, closestDistanceInMm = distance, pilot = p,
      latestCaptureDateAndTime = t\<rparr>"

section \<open>Auxiliary facts\<close>

subsection \<open>Evaluating examples\<close>

lemmas example_defs =
  checkNewViolations_def checkNewViolations_v1_def fetchDrones_def xmlParser_parse_def
  tooCloseDistPerDrone_def
  tooCloseDistPerNewDrone_def distToNDZCenterPerDrone_def existingSerialNumbers_def
  newViolations_def updateViolations_def updateViolation_def serialNumberViolationMap_def
  refresh_def addOrUpdateViolations_def addOrUpdateViolation_def pilotsOrNull_def
  fetchPilots_def allSettled_def calcDistanceToNDZcenter_def NDZRadiusInMm_def
  NDZcenterPosX_def NDZcenterPosY_def newMonitor_def Let_def enumerate_eq_zip
  removeTooOldViolations_def stillFresh_def msToStoreFor_def minToStoreViolationFor_def
  runTimeouts_def ada_def droneAt_def answers_def tracking_def violationOf_def

lemma sqrt_le_iff_square: "0 \<le> y \<Longrightarrow> sqrt x \<le> y \<longleftrightarrow> x \<le> y\<^sup>2"
proof -
  assume "0 \<le> y"
  then have y: "sqrt (y\<^sup>2) = y"
    by simp
  have "sqrt x \<le> sqrt (y\<^sup>2) \<longleftrightarrow> x \<le> y\<^sup>2"
    by (rule real_sqrt_le_iff)
  then show ?thesis
    by (simp only: y)
qed

lemma sqrt_le_numeral: "sqrt x \<le> numeral n \<longleftrightarrow> x \<le> (numeral n)\<^sup>2"
  by (rule sqrt_le_iff_square) simp

lemma calcDistanceToNDZcenter_eq:
  "calcDistanceToNDZcenter d = sqrt ((positionX d - 250000)\<^sup>2 + (positionY d - 250000)\<^sup>2)"
  by (simp add: calcDistanceToNDZcenter_def NDZcenterPosX_def NDZcenterPosY_def Let_def)

subsection \<open>The shapes the parser gives\<close>

lemma droneValue_Undefined [simp]: "droneValue ds = Undefined \<longleftrightarrow> ds = []"
  by (cases ds rule: droneValue.cases) simp_all

lemma droneValue_Object [simp]: "droneValue ds = Object d \<longleftrightarrow> ds = [d]"
  by (cases ds rule: droneValue.cases) auto

lemma droneValue_Array [simp]: "droneValue ds = Array a \<longleftrightarrow> 2 \<le> length ds \<and> a = ds"
  by (cases ds rule: droneValue.cases) auto

text \<open>
  The later version, case by case: what a call leaves when the monitor is not throttled
  and the report parses. Fewer than two drones, or none within the radius: only the
  request is on record.
\<close>

lemma check_few_drones:
  assumes "\<not> throttle s" and "dronesResponse net = Parsed body"
    and "length (drones body) < 2 \<or> tooCloseDistPerDrone (drones body) = []"
  shows "snd (checkNewViolations net s) = s\<lparr>requests := requests s @ [dronesUrl]\<rparr>"
    and "snd (checkNewViolations_v1 net s) = s\<lparr>requests := requests s @ [dronesUrl]\<rparr>"
  using assms
  by (auto simp: checkNewViolations_def checkNewViolations_v1_def fetchDrones_def
      xmlParser_parse_def Let_def split: droneProperty.splits)

lemma check_array:
  assumes "\<not> throttle s" and "dronesResponse net = Parsed body"
    and "2 \<le> length (drones body)" and "tooCloseDistPerDrone (drones body) \<noteq> []"
  shows "snd (checkNewViolations net s) =
     (let new = tooCloseDistPerNewDrone (violations s) (drones body);
          s2 = s\<lparr>requests := requests s @ dronesUrl # map (\<lambda>(sn, distance). pilotUrl sn) new\<rparr>
      in case fetchPilots (pilotResponse net) (map fst new) of
           None \<Rightarrow> s2
         | Some newPilots \<Rightarrow>
             s2\<lparr>violations :=
                  updateViolations (distToNDZCenterPerDrone (drones body)) (snapshotTimestamp body)
                    (violations s @ newViolations (snapshotTimestamp body) new newPilots),
                lastUpdatedAt := Some (finishTime net)\<rparr>)"
proof -
  from assms(3) have ne: "drones body \<noteq> []" by auto
  from assms ne show ?thesis
    by (auto simp: checkNewViolations_def fetchDrones_def xmlParser_parse_def Let_def
        split: droneProperty.splits option.splits)
qed

lemma check_array_v1:
  assumes "\<not> throttle s" and "dronesResponse net = Parsed body"
    and "2 \<le> length (drones body)" and "tooCloseDistPerDrone (drones body) \<noteq> []"
  shows "snd (checkNewViolations_v1 net s) =
     (let tooClose = tooCloseDistPerDrone (drones body)
      in s\<lparr>requests := requests s @ dronesUrl # map (\<lambda>(sn, distance). pilotUrl sn) tooClose,
           violations :=
             addOrUpdateViolations
               (newViolations (snapshotTimestamp body) tooClose
                  (pilotsOrNull (fetchPilots (pilotResponse net) (map fst tooClose))
                     (length tooClose)))
               (violations s)\<rparr>)"
proof -
  from assms(3) have ne: "drones body \<noteq> []" by auto
  from assms ne show ?thesis
    by (auto simp: checkNewViolations_v1_def fetchDrones_def xmlParser_parse_def Let_def
        split: droneProperty.splits option.splits)
qed

lemma check_not_parsed:
  assumes "\<not> throttle s"
  shows "dronesResponse net = OtherError \<Longrightarrow>
           snd (checkNewViolations net s) = s\<lparr>requests := requests s @ [dronesUrl]\<rparr> \<and>
           snd (checkNewViolations_v1 net s) = s\<lparr>requests := requests s @ [dronesUrl]\<rparr>"
    and "dronesResponse net = RateLimited \<Longrightarrow>
           snd (checkNewViolations net s) =
             s\<lparr>requests := requests s @ [dronesUrl], throttle := True,
               timeouts := timeouts s @ [responseTime net + 6000]\<rparr> \<and>
           snd (checkNewViolations_v1 net s) =
             s\<lparr>requests := requests s @ [dronesUrl], throttle := True,
               timeouts := timeouts s @ [responseTime net + 6000]\<rparr>"
  using assms
  by (simp_all add: checkNewViolations_def checkNewViolations_v1_def fetchDrones_def Let_def)

subsection \<open>fetchPilots\<close>

lemma mapResults_Inr:
  "mapResults rs = Inr ps \<Longrightarrow>
     ps = map (\<lambda>r. case r of Rejected \<Rightarrow> None
                 | Fulfilled status body \<Rightarrow> if status = 200 then body else None) rs"
proof (induction rs arbitrary: ps)
  case Nil
  then show ?case by simp
next
  case (Cons r rs)
  then show ?case
    by (cases r) (auto split: sum.splits option.splits if_splits)
qed

lemma mapResults_Inl_iff:
  "(\<exists>e. mapResults rs = Inl e) \<longleftrightarrow> Fulfilled 200 None \<in> set rs"
proof (induction rs)
  case Nil
  then show ?case by simp
next
  case (Cons r rs)
  show ?case
  proof (cases "resultToPilot r")
    case (Inl e)
    then have "r = Fulfilled 200 None"
      by (cases r) (auto split: if_splits option.splits)
    with Inl show ?thesis by simp
  next
    case (Inr p)
    then have "r \<noteq> Fulfilled 200 None" by auto
    with Inr Cons show ?thesis
      by (auto split: sum.splits)
  qed
qed

lemma allSettled_length: "length (allSettled respond sns) = length sns"
  by (simp add: allSettled_def)

lemma allSettled_nth:
  "i < length sns \<Longrightarrow> allSettled respond sns ! i = respond i (sns ! i)"
  by (simp add: allSettled_def nth_enumerate_eq)

lemma fetchPilots_None_iff:
  "fetchPilots respond sns = None \<longleftrightarrow>
     (\<exists>i < length sns. respond i (sns ! i) = Fulfilled 200 None)"
proof -
  have "fetchPilots respond sns = None \<longleftrightarrow> (\<exists>e. mapResults (allSettled respond sns) = Inl e)"
    by (auto simp: fetchPilots_def split: sum.splits)
  also have "\<dots> \<longleftrightarrow> Fulfilled 200 None \<in> set (allSettled respond sns)"
    by (rule mapResults_Inl_iff)
  also have "\<dots> \<longleftrightarrow> (\<exists>i < length sns. respond i (sns ! i) = Fulfilled 200 None)"
    by (auto simp: in_set_conv_nth allSettled_length allSettled_nth)
  finally show ?thesis .
qed

lemma fetchPilots_Some:
  assumes "fetchPilots respond sns = Some pilots"
  shows "length pilots = length sns"
    and "i < length sns \<Longrightarrow>
           pilots ! i = (case respond i (sns ! i) of Rejected \<Rightarrow> None
                         | Fulfilled status body \<Rightarrow> if status = 200 then body else None)"
proof -
  from assms have "mapResults (allSettled respond sns) = Inr pilots"
    by (auto simp: fetchPilots_def split: sum.splits)
  then have eq: "pilots = map (\<lambda>r. case r of Rejected \<Rightarrow> None
                 | Fulfilled status body \<Rightarrow> if status = 200 then body else None)
              (allSettled respond sns)"
    by (rule mapResults_Inr)
  show "length pilots = length sns"
    by (simp add: eq allSettled_length)
  show "i < length sns \<Longrightarrow>
           pilots ! i = (case respond i (sns ! i) of Rejected \<Rightarrow> None
                         | Fulfilled status body \<Rightarrow> if status = 200 then body else None)"
    by (simp add: eq allSettled_length allSettled_nth)
qed

subsection \<open>A violation object through one call and through a run\<close>

lemma keeps_refl: "keeps v v"
  by (simp add: keeps_def)

lemma keeps_trans: "keeps a b \<Longrightarrow> keeps b c \<Longrightarrow> keeps a c"
  by (auto simp: keeps_def)

lemma keeps_refresh: "keeps v (refresh distance dateAndTime v)"
  by (simp add: keeps_def refresh_def)

lemma updateViolation_length [simp]:
  "length (updateViolation m t vs dd) = length vs"
  by (simp add: updateViolation_def split: option.splits)

lemma updateViolation_keeps:
  "i < length vs \<Longrightarrow> keeps (vs ! i) (updateViolation m t vs dd ! i)"
proof (cases "m (fst dd)")
  case None
  then show ?thesis by (simp add: updateViolation_def keeps_refl)
next
  case (Some j)
  assume i: "i < length vs"
  show ?thesis
  proof (cases "j = i")
    case True
    with Some i show ?thesis by (simp add: updateViolation_def keeps_refresh)
  next
    case False
    with Some show ?thesis by (simp add: updateViolation_def keeps_refl)
  qed
qed

lemma foldl_updateViolation_length [simp]:
  "length (foldl (updateViolation m t) vs ds) = length vs"
  by (induction ds arbitrary: vs) simp_all

lemma foldl_updateViolation_keeps:
  "i < length vs \<Longrightarrow> keeps (vs ! i) (foldl (updateViolation m t) vs ds ! i)"
proof (induction ds arbitrary: vs)
  case Nil
  then show ?case by (simp add: keeps_refl)
next
  case (Cons d ds)
  have "keeps (vs ! i) (updateViolation m t vs d ! i)"
    using Cons.prems by (rule updateViolation_keeps)
  moreover have "keeps (updateViolation m t vs d ! i)
      (foldl (updateViolation m t) (updateViolation m t vs d) ds ! i)"
    using Cons.prems by (intro Cons.IH) simp
  ultimately show ?case
    by (auto intro: keeps_trans)
qed

lemma updateViolations_length [simp]:
  "length (updateViolations ds t vs) = length vs"
  by (simp add: updateViolations_def)

lemma updateViolations_keeps:
  "i < length vs \<Longrightarrow> keeps (vs ! i) (updateViolations ds t vs ! i)"
  by (simp add: updateViolations_def foldl_updateViolation_keeps)

lemma updateViolations_serialNumbers:
  "map serialNumber (updateViolations ds t vs) = map serialNumber vs"
  by (rule nth_equalityI) (use updateViolations_keeps in \<open>auto simp: keeps_def\<close>)

lemma newViolations_serialNumbers:
  "length newPilots = length new \<Longrightarrow>
     map serialNumber (newViolations dateAndTime new newPilots) = map fst new"
  by (rule nth_equalityI) (auto simp: newViolations_def split: prod.splits)

lemma checkNewViolations_keeps:
  assumes "i < length (violations s)"
  shows "i < length (violations (snd (checkNewViolations net s))) \<and>
         keeps (violations s ! i) (violations (snd (checkNewViolations net s)) ! i)"
proof -
  have *: "keeps (violations s ! i) (updateViolations ds t (violations s @ ws) ! i)" for ds t ws
    using updateViolations_keeps [of i "violations s @ ws" ds t] assms
    by (simp add: nth_append)
  show ?thesis
    using assms
    by (auto simp: checkNewViolations_def fetchDrones_def xmlParser_parse_def Let_def keeps_refl *
        split: fetchOutcome.splits option.splits droneProperty.splits)
qed

lemma findIndex_Some:
  "findIndex P xs = Some i \<Longrightarrow> i < length xs \<and> P (xs ! i)"
proof (induction xs arbitrary: i)
  case Nil
  then show ?case by simp
next
  case (Cons x xs)
  then show ?case
    by (cases "P x") auto
qed

lemma addOrUpdateViolation_keeps:
  assumes "i < length vs"
  shows "i < length (addOrUpdateViolation vs v) \<and> keeps (vs ! i) (addOrUpdateViolation vs v ! i)"
proof (cases "findIndex (\<lambda>e. serialNumber e = serialNumber v) vs")
  case None
  with assms show ?thesis
    by (simp add: addOrUpdateViolation_def nth_append keeps_refl)
next
  case (Some j)
  show ?thesis
  proof (cases "j = i")
    case True
    with Some assms show ?thesis by (simp add: addOrUpdateViolation_def keeps_refresh)
  next
    case False
    with Some assms show ?thesis by (simp add: addOrUpdateViolation_def keeps_refl)
  qed
qed

lemma addOrUpdateViolations_keeps:
  "i < length vs \<Longrightarrow>
     i < length (addOrUpdateViolations ws vs) \<and> keeps (vs ! i) (addOrUpdateViolations ws vs ! i)"
proof (induction ws arbitrary: vs)
  case Nil
  then show ?case by (simp add: addOrUpdateViolations_def keeps_refl)
next
  case (Cons w ws)
  from addOrUpdateViolation_keeps [OF Cons.prems, of w]
  have 1: "i < length (addOrUpdateViolation vs w)"
    and 2: "keeps (vs ! i) (addOrUpdateViolation vs w ! i)" by simp_all
  from Cons.IH [OF 1]
  have "i < length (addOrUpdateViolations ws (addOrUpdateViolation vs w))"
    and "keeps (addOrUpdateViolation vs w ! i)
           (addOrUpdateViolations ws (addOrUpdateViolation vs w) ! i)" by simp_all
  with 2 show ?case
    by (auto simp: addOrUpdateViolations_def intro: keeps_trans)
qed

lemma checkNewViolations_v1_keeps:
  assumes "i < length (violations s)"
  shows "i < length (violations (snd (checkNewViolations_v1 net s))) \<and>
         keeps (violations s ! i) (violations (snd (checkNewViolations_v1 net s)) ! i)"
  using assms addOrUpdateViolations_keeps [of i "violations s"]
  by (auto simp: checkNewViolations_v1_def fetchDrones_def xmlParser_parse_def Let_def keeps_refl
      split: fetchOutcome.splits option.splits droneProperty.splits)

lemma filter_nth_kept:
  "i < length xs \<Longrightarrow> P (xs ! i) \<Longrightarrow>
     length (filter P (take i xs)) < length (filter P xs) \<and>
     filter P xs ! length (filter P (take i xs)) = xs ! i"
proof -
  assume i: "i < length xs" and P: "P (xs ! i)"
  have "xs = take i xs @ xs ! i # drop (Suc i) xs"
    using i by (rule id_take_nth_drop)
  then have "filter P xs = filter P (take i xs) @ xs ! i # filter P (drop (Suc i) xs)"
    using P by (metis filter.simps(2) filter_append)
  then show ?thesis
    by (simp add: nth_append)
qed

lemma runTimeouts_violations [simp]: "violations (runTimeouts now s) = violations s"
  by (simp add: runTimeouts_def)

lemma step_keeps:
  assumes "i < length (violations s)" and "\<forall>now. e \<noteq> RemoveTooOld now"
  shows "i < length (violations (step ver e s)) \<and>
         keeps (violations s ! i) (violations (step ver e s) ! i)"
proof (cases e)
  case (Check net)
  with assms(1) show ?thesis
    by (cases ver) (simp_all add: checkNewViolations_keeps checkNewViolations_v1_keeps)
next
  case (RemoveTooOld now)
  with assms(2) show ?thesis by simp
next
  case (Timeout now)
  with assms(1) show ?thesis by (simp add: keeps_refl)
qed

lemma follow_keeps:
  "follow ver es s i = Some j \<Longrightarrow>
     i < length (violations s) \<and> j < length (violations (run ver es s)) \<and>
     keeps (violations s ! i) (violations (run ver es s) ! j)"
proof (induction es arbitrary: s i)
  case Nil
  then show ?case by (simp add: keeps_refl split: if_splits)
next
  case (Cons e es)
  show ?case
  proof (cases "\<exists>now. e = RemoveTooOld now")
    case True
    then obtain now where e: "e = RemoveTooOld now" by blast
    let ?k = "length (filter (stillFresh now) (take i (violations s)))"
    from Cons.prems e have i: "i < length (violations s)"
      and fresh: "stillFresh now (violations s ! i)"
      and f: "follow ver es (removeTooOldViolations now s) ?k = Some j"
      by (simp_all split: if_splits)
    from filter_nth_kept [OF i, of "stillFresh now"] fresh
    have same: "violations (removeTooOldViolations now s) ! ?k = violations s ! i"
      by (simp add: removeTooOldViolations_def)
    from Cons.IH [OF f] same i e show ?thesis
      by simp
  next
    case False
    then have ne: "\<forall>now. e \<noteq> RemoveTooOld now" by blast
    from Cons.prems ne have i: "i < length (violations s)"
      and f: "follow ver es (step ver e s) i = Some j"
      by (cases e; simp split: if_splits)+
    from step_keeps [OF i ne, of ver] Cons.IH [OF f] i show ?thesis
      by (auto intro: keeps_trans)
  qed
qed

text \<open>Without a removal pass every object stays where it is.\<close>

lemma follow_no_removal:
  "i < length (violations s) \<Longrightarrow> \<forall>now. RemoveTooOld now \<notin> set es \<Longrightarrow>
     follow ver es s i = Some i"
proof (induction es arbitrary: s)
  case Nil
  then show ?case by simp
next
  case (Cons e es)
  from Cons.prems have ne: "\<forall>now. e \<noteq> RemoveTooOld now" by auto
  from step_keeps [OF Cons.prems(1) ne, of ver] have "i < length (violations (step ver e s))"
    by simp
  with Cons show ?case
    by (cases e) auto
qed

subsection \<open>Serial numbers that stay distinct\<close>

text \<open>
  In the later version the serial numbers of the array stay distinct through every run
  whose snapshots are free of duplicates.
\<close>

lemma checkNewViolations_distinct:
  assumes "distinct (map serialNumber (violations s))"
    and "duplicateFree (Check net)"
  shows "distinct (map serialNumber (violations (snd (checkNewViolations net s))))"
proof (cases "throttle s")
  case True
  with assms(1) show ?thesis by (simp add: checkNewViolations_def)
next
  case False
  show ?thesis
  proof (cases "dronesResponse net")
    case (Parsed body)
    let ?new = "tooCloseDistPerNewDrone (violations s) (drones body)"
    show ?thesis
    proof (cases "length (drones body) < 2 \<or> tooCloseDistPerDrone (drones body) = []")
      case True
      with check_few_drones(1) [OF False Parsed] assms(1) show ?thesis by simp
    next
      case many: False
      have d: "distinct (map fst ?new)"
        using assms(2) Parsed
        by (simp add: tooCloseDistPerNewDrone_def distinct_map_filter)
      have disj: "set (map serialNumber (violations s)) \<inter> set (map fst ?new) = {}"
        by (auto simp: tooCloseDistPerNewDrone_def existingSerialNumbers_def)
      from many have c: "snd (checkNewViolations net s) =
         (let new = ?new;
              s2 = s\<lparr>requests := requests s @ dronesUrl # map (\<lambda>(sn, distance). pilotUrl sn) new\<rparr>
          in case fetchPilots (pilotResponse net) (map fst new) of
               None \<Rightarrow> s2
             | Some newPilots \<Rightarrow>
                 s2\<lparr>violations :=
                      updateViolations (distToNDZCenterPerDrone (drones body))
                        (snapshotTimestamp body)
                        (violations s @ newViolations (snapshotTimestamp body) new newPilots),
                    lastUpdatedAt := Some (finishTime net)\<rparr>)"
        by (intro check_array [OF False Parsed]) simp_all
      show ?thesis
      proof (cases "fetchPilots (pilotResponse net) (map fst ?new)")
        case None
        with c assms(1) show ?thesis by (simp add: Let_def)
      next
        case (Some newPilots)
        then have len: "length newPilots = length ?new"
          using fetchPilots_Some(1) by fastforce
        from c Some assms(1) d disj show ?thesis
          by (simp add: Let_def updateViolations_serialNumbers
              newViolations_serialNumbers [OF len])
      qed
    qed
  next
    case RateLimited
    with check_not_parsed(2) [OF False, of net] assms(1) show ?thesis by simp
  next
    case OtherError
    with check_not_parsed(1) [OF False, of net] assms(1) show ?thesis by simp
  qed
qed

lemma run_distinct:
  "distinct (map serialNumber (violations s)) \<Longrightarrow> list_all duplicateFree es \<Longrightarrow>
     distinct (map serialNumber (violations (run Later es s)))"
proof (induction es arbitrary: s)
  case Nil
  then show ?case by simp
next
  case (Cons e es)
  have "distinct (map serialNumber (violations (step Later e s)))"
  proof (cases e)
    case (Check net)
    with Cons.prems show ?thesis by (simp add: checkNewViolations_distinct)
  next
    case (RemoveTooOld now)
    with Cons.prems(1) show ?thesis
      by (simp add: removeTooOldViolations_def distinct_map_filter)
  next
    case (Timeout now)
    with Cons.prems(1) show ?thesis by simp
  qed
  with Cons show ?case by simp
qed

subsection \<open>The throttle and its timer\<close>









subsection \<open>updateViolations stores the minimum\<close>

text \<open>
  The map of \<^verbatim>\<open>updateViolations\<close> refers, for each serial number, to the last violation of
  the array that has it; to every violation when the serial numbers are distinct.
\<close>

lemma serialNumberViolationMap_snoc:
  "serialNumberViolationMap (vs @ [v]) = (serialNumberViolationMap vs)(serialNumber v \<mapsto> length vs)"
  by (simp add: serialNumberViolationMap_def)

lemma serialNumberViolationMap_append:
  "sn \<notin> serialNumber ` set ws \<Longrightarrow>
     serialNumberViolationMap (vs @ ws) sn = serialNumberViolationMap vs sn"
proof (induction ws rule: rev_induct)
  case Nil
  then show ?case by simp
next
  case (snoc w ws)
  then show ?case
    using serialNumberViolationMap_snoc [of "vs @ ws" w] by auto
qed

lemma serialNumberViolationMap_Some:
  "serialNumberViolationMap vs sn = Some i \<Longrightarrow> i < length vs \<and> serialNumber (vs ! i) = sn"
proof (induction vs arbitrary: i rule: rev_induct)
  case Nil
  then show ?case by (simp add: serialNumberViolationMap_def)
next
  case (snoc v vs)
  then show ?case
    by (auto simp: serialNumberViolationMap_snoc nth_append split: if_splits)
qed

lemma serialNumberViolationMap_distinct:
  "distinct (map serialNumber vs) \<Longrightarrow> i < length vs \<Longrightarrow>
     serialNumberViolationMap vs (serialNumber (vs ! i)) = Some i"
proof (induction vs rule: rev_induct)
  case Nil
  then show ?case by simp
next
  case (snoc v vs)
  show ?case
  proof (cases "i < length vs")
    case True
    then have "serialNumber (vs ! i) \<in> serialNumber ` set vs"
      by (intro imageI nth_mem)
    with snoc.prems have "serialNumber (vs ! i) \<noteq> serialNumber v"
      by auto
    with True snoc show ?thesis
      by (simp add: serialNumberViolationMap_snoc nth_append)
  next
    case False
    with snoc.prems have "i = length vs" by simp
    then show ?thesis
      by (simp add: serialNumberViolationMap_snoc)
  qed
qed

lemma foldl_min_Min: "foldl min (c :: real) xs = Min (set (c # xs))"
proof (induction xs arbitrary: c)
  case Nil
  then show ?case by simp
next
  case (Cons x xs)
  have "Min (insert (min c x) (set xs)) = Min (insert c (insert x (set xs)))"
    by (cases "set xs = {}") (simp_all add: min.assoc)
  with Cons show ?case by simp
qed

lemma foldl_updateViolation_closest:
  assumes "serialNumberViolationMap vs (serialNumber (vs ! i)) = Some i"
    and "i < length vs" and "length ws = length vs"
  shows "closestDistanceInMm (foldl (updateViolation (serialNumberViolationMap vs) t) ws ds ! i) =
     foldl min (closestDistanceInMm (ws ! i))
       (map snd (filter (\<lambda>(sn, distance). sn = serialNumber (vs ! i)) ds))"
  using assms(3)
proof (induction ds arbitrary: ws)
  case Nil
  then show ?case by simp
next
  case (Cons dd ds)
  let ?m = "serialNumberViolationMap vs"
  let ?ws = "updateViolation ?m t ws dd"
  have len: "length ?ws = length vs"
    using Cons.prems by simp
  have step: "closestDistanceInMm (?ws ! i) =
      (if fst dd = serialNumber (vs ! i) then min (closestDistanceInMm (ws ! i)) (snd dd)
       else closestDistanceInMm (ws ! i))"
  proof (cases "fst dd = serialNumber (vs ! i)")
    case True
    with assms(1,2) Cons.prems show ?thesis
      by (simp add: updateViolation_def refresh_def min_def)
  next
    case False
    show ?thesis
    proof (cases "?m (fst dd)")
      case None
      with False show ?thesis by (simp add: updateViolation_def)
    next
      case (Some j)
      from serialNumberViolationMap_Some [OF Some] False have "j \<noteq> i" by auto
      with Some False show ?thesis by (simp add: updateViolation_def)
    qed
  qed
  from Cons.IH [OF len] step show ?case
    by (cases dd) (simp add: split_def)
qed

lemma updateViolations_closest:
  assumes "i < length vs"
    and "serialNumberViolationMap vs (serialNumber (vs ! i)) = Some i"
  shows "closestDistanceInMm (updateViolations distancePerDrone dateAndTime vs ! i) =
     Min (set (closestDistanceInMm (vs ! i) #
               map snd (filter (\<lambda>(sn, distance). sn = serialNumber (vs ! i)) distancePerDrone)))"
  using foldl_updateViolation_closest [OF assms(2,1), of vs dateAndTime distancePerDrone]
  by (simp only: updateViolations_def foldl_min_Min)

subsection \<open>Reports of no drone and of two or more drones\<close>

text \<open>
  A report with no drone: the promise of \<^verbatim>\<open>checkNewViolations\<close> is rejected. A report of two
  or more drones in a call that runs to its end: the closest distance of a violation
  that the map refers to, and the serial numbers on record.
\<close>

lemma empty_report_rejects:
  assumes "\<not> throttle s" and "dronesResponse net = Parsed body" and "drones body = []"
  shows "fst (checkNewViolations net s) = Some TypeError \<and>
         fst (checkNewViolations_v1 net s) = Some TypeError"
  using assms
  by (simp add: checkNewViolations_def checkNewViolations_v1_def fetchDrones_def
      xmlParser_parse_def Let_def)

lemma check_closest:
  assumes "\<not> throttle s" and "dronesResponse net = Parsed body"
    and "2 \<le> length (drones body)" and "tooCloseDistPerDrone (drones body) \<noteq> []"
    and "fetchPilots (pilotResponse net)
           (map fst (tooCloseDistPerNewDrone (violations s) (drones body))) = Some newPilots"
    and "i < length (violations s)"
    and "serialNumberViolationMap (violations s) (serialNumber (violations s ! i)) = Some i"
  shows "closestDistanceInMm (violations (snd (checkNewViolations net s)) ! i) =
     Min (set (closestDistanceInMm (violations s ! i) #
               map snd (filter (\<lambda>(sn, distance). sn = serialNumber (violations s ! i))
                          (distToNDZCenterPerDrone (drones body)))))"
proof -
  let ?vs = "violations s"
  let ?new = "tooCloseDistPerNewDrone ?vs (drones body)"
  let ?news = "newViolations (snapshotTimestamp body) ?new newPilots"
  have len: "length newPilots = length ?new"
    using fetchPilots_Some(1) [OF assms(5)] by simp
  have store: "violations (snd (checkNewViolations net s)) =
      updateViolations (distToNDZCenterPerDrone (drones body)) (snapshotTimestamp body)
        (?vs @ ?news)"
    using check_array [OF assms(1-4)] assms(5) by (simp add: Let_def)
  have "serialNumber (?vs ! i) \<in> set (existingSerialNumbers ?vs)"
    using assms(6) by (simp add: existingSerialNumbers_def)
  then have "serialNumber (?vs ! i) \<notin> set (map fst ?new)"
    by (auto simp: tooCloseDistPerNewDrone_def)
  then have "serialNumber (?vs ! i) \<notin> serialNumber ` set ?news"
    using newViolations_serialNumbers [OF len, of "snapshotTimestamp body"]
    by (metis set_map)
  then have ref: "serialNumberViolationMap (?vs @ ?news) (serialNumber ((?vs @ ?news) ! i)) = Some i"
    using assms(6,7) by (simp add: serialNumberViolationMap_append nth_append)
  have i: "i < length (?vs @ ?news)"
    using assms(6) by simp
  from updateViolations_closest [OF i ref] assms(6) show ?thesis
    unfolding store by (simp add: nth_append)
qed

lemma array_violators_are_stored:
  assumes "\<not> throttle s"
    and "dronesResponse net = Parsed body"
    and "2 \<le> length (drones body)"
    and "fetchPilots (pilotResponse net)
           (map fst (tooCloseDistPerNewDrone (violations s) (drones body))) = Some newPilots"
    and "d \<in> set (drones body)"
    and "sqrt ((positionX d - 250000)\<^sup>2 + (positionY d - 250000)\<^sup>2) \<le> 100000"
  shows "drone.serialNumber d \<in> serialNumber ` set (violations (snd (checkNewViolations net s)))"
proof -
  let ?new = "tooCloseDistPerNewDrone (violations s) (drones body)"
  let ?sn = "drone.serialNumber d"
  from assms(5,6)
  have tc: "(?sn, calcDistanceToNDZcenter d) \<in> set (tooCloseDistPerDrone (drones body))"
    by (auto simp: tooCloseDistPerDrone_def distToNDZCenterPerDrone_def NDZRadiusInMm_def
        calcDistanceToNDZcenter_eq)
  then have ne: "tooCloseDistPerDrone (drones body) \<noteq> []"
    by auto
  have len: "length newPilots = length ?new"
    using fetchPilots_Some(1) [OF assms(4)] by simp
  have store: "map serialNumber (violations (snd (checkNewViolations net s))) =
      map serialNumber (violations s) @ map fst ?new"
    using check_array [OF assms(1-3) ne] assms(4)
    by (simp add: Let_def updateViolations_serialNumbers newViolations_serialNumbers [OF len])
  have "?sn \<in> set (map serialNumber (violations s)) \<or> ?sn \<in> set (map fst ?new)"
    using tc by (force simp: tooCloseDistPerNewDrone_def existingSerialNumbers_def)
  then have "?sn \<in> set (map serialNumber (violations (snd (checkNewViolations net s))))"
    unfolding store by auto
  then show ?thesis
    by simp
qed

section \<open>The properties\<close>

subsection \<open>C1: latestCaptureDateAndTime and the radius\<close>

text \<open>
  C1 reads: the \<^verbatim>\<open>latestCaptureDateAndTime\<close> of a tracked drone is the timestamp of the most
  recent snapshot in which the drone was within the 100000 mm radius; the update of a
  call is applied to the within-radius drones of the snapshot only, never to a tracked
  drone that the snapshot reports outside the radius.

  The later version hands \<^verbatim>\<open>distToNDZCenterPerDrone\<close>, the distances of all drones of the
  snapshot, to \<^verbatim>\<open>updateViolations\<close>. Below, every snapshot has two drones, so that the
  parser gives an array. The snapshot of time 1000 reports D1 at the centre and D9 far
  away, and D1 is recorded. The snapshot of time 3000 reports D1 at distance 250000 and D2
  at the centre. After it the record of D1 carries the date 3000. The earlier version,
  on the same two snapshots, leaves the date of D1 at 1000.
\<close>

theorem lastSeen_refreshed_outside_radius:
  "violations
     (snd (checkNewViolations
        (answers 1000 [droneAt ''D1'' 250000 250000, droneAt ''D9'' 0 0] (\<lambda>i sn. Rejected))
        newMonitor)) =
   [violationOf ''D1'' 0 None 1000] \<and>
   calcDistanceToNDZcenter (droneAt ''D1'' 250000 0) = 250000 \<and>
   violations
     (run Later
        [Check (answers 1000 [droneAt ''D1'' 250000 250000, droneAt ''D9'' 0 0]
                  (\<lambda>i sn. Rejected)),
         Check (answers 3000 [droneAt ''D1'' 250000 0, droneAt ''D2'' 250000 250000]
                  (\<lambda>i sn. Rejected))]
        newMonitor) =
   [violationOf ''D1'' 0 None 3000, violationOf ''D2'' 0 None 3000] \<and>
   violations
     (run Earlier
        [Check (answers 1000 [droneAt ''D1'' 250000 250000, droneAt ''D9'' 0 0]
                  (\<lambda>i sn. Rejected)),
         Check (answers 3000 [droneAt ''D1'' 250000 0, droneAt ''D2'' 250000 250000]
                  (\<lambda>i sn. Rejected))]
        newMonitor) =
   [violationOf ''D1'' 0 None 1000, violationOf ''D2'' 0 None 3000]"
  by (simp add: example_defs sqrt_le_numeral)

subsection \<open>C2: a snapshot with no drones\<close>

text \<open>
  C2 reads: when the fetch succeeds and the drone list of the snapshot is empty, the
  violations are left as they are and \<^verbatim>\<open>_lastUpdatedAt\<close> is advanced to the current time.

  The first half holds. The second does not: the call ends at the line
  \<^verbatim>\<open>if (!droneCapture.length) return;\<close>, before the only line that sets \<^verbatim>\<open>_lastUpdatedAt\<close>
  (a report with no drone has no \<^verbatim>\<open>drone\<close> property, and the line throws). In the example
  the fetch succeeds with an empty list on a new monitor, and \<^verbatim>\<open>_lastUpdatedAt\<close> is not the
  time the call ended.
\<close>

theorem empty_capture_lastUpdatedAt_counterexample:
  "dronesResponse (answers 1000 [] (\<lambda>i sn. Rejected)) =
     Parsed \<lparr>snapshotTimestamp = 1000, drones = []\<rparr> \<and>
   lastUpdatedAt (snd (checkNewViolations (answers 1000 [] (\<lambda>i sn. Rejected)) newMonitor)) \<noteq>
     Some (finishTime (answers 1000 [] (\<lambda>i sn. Rejected)))"
  by (simp add: example_defs)

text \<open>
  C2, as the code has it: when the monitor is not throttled, the fetch succeeds and the
  drone list of the snapshot is empty, the call leaves the violations and
  \<^verbatim>\<open>_lastUpdatedAt\<close> as they were.
\<close>

theorem empty_capture_changes_nothing:
  assumes "\<not> throttle s"
    and "dronesResponse net = Parsed droneReport"
    and "drones droneReport = []"
  shows "violations (snd (checkNewViolations net s)) = violations s \<and>
         lastUpdatedAt (snd (checkNewViolations net s)) = lastUpdatedAt s"
  using assms
  by (simp add: checkNewViolations_def fetchDrones_def xmlParser_parse_def Let_def)

theorem empty_capture_changes_nothing_witness:
  "\<not> throttle ((tracking [violationOf ''D1'' 0 None 1000])\<lparr>lastUpdatedAt := Some 1200\<rparr>) \<and>
   violations
     (snd (checkNewViolations (answers 3000 [] (\<lambda>i sn. Rejected))
        ((tracking [violationOf ''D1'' 0 None 1000])\<lparr>lastUpdatedAt := Some 1200\<rparr>))) =
   [violationOf ''D1'' 0 None 1000] \<and>
   lastUpdatedAt
     (snd (checkNewViolations (answers 3000 [] (\<lambda>i sn. Rejected))
        ((tracking [violationOf ''D1'' 0 None 1000])\<lparr>lastUpdatedAt := Some 1200\<rparr>))) =
   Some 1200"
  using empty_capture_changes_nothing
    [of "(tracking [violationOf ''D1'' 0 None 1000])\<lparr>lastUpdatedAt := Some 1200\<rparr>"
      "answers 3000 [] (\<lambda>i sn. Rejected)" "\<lparr>snapshotTimestamp = 3000, drones = []\<rparr>"]
  by (simp add: tracking_def answers_def newMonitor_def)

subsection \<open>C3: every drone within the radius is recorded\<close>

text \<open>
  C3 reads: after a poll cycle that processes a snapshot, every drone of the snapshot
  whose Euclidean distance to (250000, 250000) is at most 100000 has a violation with
  its serial number in \<^verbatim>\<open>violations\<close>.

  A snapshot with one drone is lost. The parser of the class gives the one drone as an
  object, not as an array of one; \<^verbatim>\<open>droneCapture.length\<close> is then \<^verbatim>\<open>undefined\<close> and
  \<^verbatim>\<open>if (!droneCapture.length) return;\<close> ends the call. Below, the only drone of the
  snapshot, D1, is at the centre (distance 0), its pilot lookup would succeed, and the
  call of either version leaves a new monitor with no violation and no pilot request.
  With a second drone D9 far away in the same snapshot, D1 is recorded.
\<close>

theorem single_drone_not_recorded:
  "calcDistanceToNDZcenter (droneAt ''D1'' 250000 250000) = 0 \<and>
   checkNewViolations
     (answers 1000 [droneAt ''D1'' 250000 250000] (\<lambda>i sn. Fulfilled 200 (Some ada)))
     newMonitor =
   (None, newMonitor\<lparr>requests := [dronesUrl]\<rparr>) \<and>
   checkNewViolations_v1
     (answers 1000 [droneAt ''D1'' 250000 250000] (\<lambda>i sn. Fulfilled 200 (Some ada)))
     newMonitor =
   (None, newMonitor\<lparr>requests := [dronesUrl]\<rparr>) \<and>
   violations
     (snd (checkNewViolations
        (answers 1000 [droneAt ''D1'' 250000 250000, droneAt ''D9'' 0 0]
           (\<lambda>i sn. Fulfilled 200 (Some ada)))
        newMonitor)) =
   [violationOf ''D1'' 0 (Some ada) 1000]"
  by (simp add: example_defs sqrt_le_numeral)

subsection \<open>C4: the closest distance\<close>

text \<open>
  C4, in three parts. In each, \<open>i\<close> is the reference that \<^verbatim>\<open>serialNumberViolationMap\<close> holds
  for the serial number of the violation at index \<open>i\<close> (it is, for every index, when the
  serial numbers of the array are distinct).
  \<^item> \<^verbatim>\<open>updateViolations\<close> leaves in \<^verbatim>\<open>closestDistanceInMm\<close> of that violation the minimum of
    its old value and the distances that \<^verbatim>\<open>distancePerDrone\<close> lists for its serial number.
  \<^item> A call of \<^verbatim>\<open>checkNewViolations\<close> that runs to its end (not throttled, a snapshot of
    two or more drones with one within the radius, an array from \<^verbatim>\<open>fetchPilots\<close>) leaves
    in it the minimum of its old value and the distances of the drones of the snapshot
    that have its serial number.
  \<^item> Hence, along any run of either version, a violation object that is still in the
    array (\<open>follow\<close> gives its index \<open>j\<close>) has its serial number and a closest distance no
    larger than at the start.
\<close>

theorem closest_distance_never_increases:
  "(i < length vs \<and> serialNumberViolationMap vs (serialNumber (vs ! i)) = Some i \<longrightarrow>
      closestDistanceInMm (updateViolations distancePerDrone dateAndTime vs ! i) =
        Min (set (closestDistanceInMm (vs ! i) #
                  map snd (filter (\<lambda>(sn, distance). sn = serialNumber (vs ! i))
                             distancePerDrone)))) \<and>
   (\<not> throttle s \<and> dronesResponse net = Parsed body \<and> 2 \<le> length (drones body) \<and>
    tooCloseDistPerDrone (drones body) \<noteq> [] \<and>
    fetchPilots (pilotResponse net)
      (map fst (tooCloseDistPerNewDrone (violations s) (drones body))) = Some newPilots \<and>
    n < length (violations s) \<and>
    serialNumberViolationMap (violations s) (serialNumber (violations s ! n)) = Some n \<longrightarrow>
      closestDistanceInMm (violations (snd (checkNewViolations net s)) ! n) =
        Min (set (closestDistanceInMm (violations s ! n) #
                  map snd (filter (\<lambda>(sn, distance). sn = serialNumber (violations s ! n))
                             (distToNDZCenterPerDrone (drones body)))))) \<and>
   (follow ver es s0 k = Some j \<longrightarrow>
      serialNumber (violations (run ver es s0) ! j) = serialNumber (violations s0 ! k) \<and>
      closestDistanceInMm (violations (run ver es s0) ! j) \<le>
        closestDistanceInMm (violations s0 ! k))"
proof (intro conjI impI)
  assume "i < length vs \<and> serialNumberViolationMap vs (serialNumber (vs ! i)) = Some i"
  then show "closestDistanceInMm (updateViolations distancePerDrone dateAndTime vs ! i) =
        Min (set (closestDistanceInMm (vs ! i) #
                  map snd (filter (\<lambda>(sn, distance). sn = serialNumber (vs ! i))
                             distancePerDrone)))"
    by (simp only: updateViolations_closest)
next
  assume "\<not> throttle s \<and> dronesResponse net = Parsed body \<and> 2 \<le> length (drones body) \<and>
    tooCloseDistPerDrone (drones body) \<noteq> [] \<and>
    fetchPilots (pilotResponse net)
      (map fst (tooCloseDistPerNewDrone (violations s) (drones body))) = Some newPilots \<and>
    n < length (violations s) \<and>
    serialNumberViolationMap (violations s) (serialNumber (violations s ! n)) = Some n"
  then show "closestDistanceInMm (violations (snd (checkNewViolations net s)) ! n) =
        Min (set (closestDistanceInMm (violations s ! n) #
                  map snd (filter (\<lambda>(sn, distance). sn = serialNumber (violations s ! n))
                             (distToNDZCenterPerDrone (drones body)))))"
    by (intro check_closest) simp_all
next
  assume "follow ver es s0 k = Some j"
  from follow_keeps [OF this]
  show "serialNumber (violations (run ver es s0) ! j) = serialNumber (violations s0 ! k)"
    and "closestDistanceInMm (violations (run ver es s0) ! j) \<le>
      closestDistanceInMm (violations s0 ! k)"
    by (simp_all add: keeps_def)
qed

theorem closest_distance_never_increases_witness:
  "serialNumberViolationMap
     [violationOf ''D0'' 70000 None 0, violationOf ''D1'' 50000 (Some ada) 700000] ''D1'' = Some 1 \<and>
   closestDistanceInMm
     (updateViolations [(''D1'', 30000), (''D7'', 10), (''D1'', 60000)] 702000
        [violationOf ''D0'' 70000 None 0, violationOf ''D1'' 50000 (Some ada) 700000] ! 1) =
     30000 \<and>
   fetchPilots (\<lambda>i sn. Rejected) [] = Some [] \<and>
   closestDistanceInMm
     (violations
        (snd (checkNewViolations
           (answers 702000 [droneAt ''D1'' 250000 210000, droneAt ''D9'' 0 0] (\<lambda>i sn. Rejected))
           (tracking [violationOf ''D0'' 70000 None 0, violationOf ''D1'' 50000 (Some ada) 700000])))
      ! 1) = 40000 \<and>
   follow Later
     [RemoveTooOld 700000,
      Check (answers 702000 [droneAt ''D1'' 250000 210000, droneAt ''D9'' 0 0]
               (\<lambda>i sn. Rejected))]
     (tracking [violationOf ''D0'' 70000 None 0, violationOf ''D1'' 50000 (Some ada) 700000]) 1 =
     Some 0 \<and>
   closestDistanceInMm
     (violations
        (run Later
           [RemoveTooOld 700000,
            Check (answers 702000 [droneAt ''D1'' 250000 210000, droneAt ''D9'' 0 0]
                     (\<lambda>i sn. Rejected))]
           (tracking [violationOf ''D0'' 70000 None 0, violationOf ''D1'' 50000 (Some ada) 700000]))
      ! 0) \<le> 50000"
  using closest_distance_never_increases
    [where vs = "[violationOf ''D0'' 70000 None 0, violationOf ''D1'' 50000 (Some ada) 700000]"
      and i = 1 and distancePerDrone = "[(''D1'', 30000), (''D7'', 10), (''D1'', 60000)]"
      and dateAndTime = 702000
      and s = "tracking [violationOf ''D0'' 70000 None 0,
                         violationOf ''D1'' 50000 (Some ada) 700000]"
      and net = "answers 702000 [droneAt ''D1'' 250000 210000, droneAt ''D9'' 0 0]
                   (\<lambda>i sn. Rejected)"
      and body = "\<lparr>snapshotTimestamp = 702000,
                    drones = [droneAt ''D1'' 250000 210000, droneAt ''D9'' 0 0]\<rparr>"
      and newPilots = "[]" and n = 1 and ver = Later
      and es = "[RemoveTooOld 700000,
                 Check (answers 702000 [droneAt ''D1'' 250000 210000, droneAt ''D9'' 0 0]
                          (\<lambda>i sn. Rejected))]"
      and ?s0.0 = "tracking [violationOf ''D0'' 70000 None 0,
                         violationOf ''D1'' 50000 (Some ada) 700000]"
      and k = 1 and j = 0]
  by (simp add: example_defs sqrt_le_numeral)

subsection \<open>C5: one violation per serial number\<close>

text \<open>
  C5 reads: in every state the monitor can reach, also through snapshots that list a
  serial number more than once, \<^verbatim>\<open>violations\<close> holds at most one violation per serial
  number.

  The later version decides which drones are new against the serial numbers recorded
  before the call, and pushes all of them at once. A snapshot that lists the new drone D1
  twice within the radius puts two violations of D1 into the array of a new monitor. The
  earlier version looks each violation up in the array as it is at that turn of its
  loop, and records D1 once.
\<close>

theorem duplicate_serial_stored_twice:
  "violations
     (snd (checkNewViolations
        (answers 1000 [droneAt ''D1'' 250000 250000, droneAt ''D1'' 250000 250000]
           (\<lambda>i sn. Rejected))
        newMonitor)) =
   [violationOf ''D1'' 0 None 1000, violationOf ''D1'' 0 None 1000] \<and>
   violations
     (snd (checkNewViolations_v1
        (answers 1000 [droneAt ''D1'' 250000 250000, droneAt ''D1'' 250000 250000]
           (\<lambda>i sn. Rejected))
        newMonitor)) =
   [violationOf ''D1'' 0 None 1000]"
  by (simp add: example_defs)

subsection \<open>C6: the pilot of a violation\<close>

text \<open>
  C6: along any run of either version, a violation object that is still in the array
  (\<open>follow\<close> gives its index \<open>j\<close>) has the serial number and the pilot it had at the start,
  \<open>None\<close> included. The earlier version asks for the pilot of every drone within the
  radius in every call, and uses the answer for the violations it pushes only.
\<close>

theorem pilot_never_overwritten:
  assumes "follow ver es s i = Some j"
  shows "serialNumber (violations (run ver es s) ! j) = serialNumber (violations s ! i) \<and>
         pilot (violations (run ver es s) ! j) = pilot (violations s ! i)"
  using follow_keeps [OF assms] by (simp add: keeps_def)

theorem pilot_never_overwritten_witness:
  "follow Earlier
     [Check (answers 3000 [droneAt ''D1'' 250000 250000, droneAt ''D9'' 0 0]
               (\<lambda>i sn. Fulfilled 200 (Some ada)))]
     (tracking [violationOf ''D1'' 50000 None 1000]) 0 = Some 0 \<and>
   violations
     (run Earlier
        [Check (answers 3000 [droneAt ''D1'' 250000 250000, droneAt ''D9'' 0 0]
                  (\<lambda>i sn. Fulfilled 200 (Some ada)))]
        (tracking [violationOf ''D1'' 50000 None 1000])) =
   [violationOf ''D1'' 0 None 3000] \<and>
   follow Later
     [RemoveTooOld 700000,
      Check (answers 702000 [droneAt ''D1'' 250000 250000, droneAt ''D9'' 0 0]
               (\<lambda>i sn. Rejected))]
     (tracking [violationOf ''D0'' 70000 None 0, violationOf ''D1'' 50000 (Some ada) 700000]) 1 =
     Some 0 \<and>
   violations
     (run Later
        [RemoveTooOld 700000,
         Check (answers 702000 [droneAt ''D1'' 250000 250000, droneAt ''D9'' 0 0]
                  (\<lambda>i sn. Rejected))]
        (tracking [violationOf ''D0'' 70000 None 0, violationOf ''D1'' 50000 (Some ada) 700000])) =
   [violationOf ''D1'' 0 (Some ada) 702000]"
  using pilot_never_overwritten
    [of Earlier
      "[Check (answers 3000 [droneAt ''D1'' 250000 250000, droneAt ''D9'' 0 0]
                 (\<lambda>i sn. Fulfilled 200 (Some ada)))]"
      "tracking [violationOf ''D1'' 50000 None 1000]" 0 0]
    pilot_never_overwritten
    [of Later
      "[RemoveTooOld 700000,
        Check (answers 702000 [droneAt ''D1'' 250000 250000, droneAt ''D9'' 0 0]
                 (\<lambda>i sn. Rejected))]"
      "tracking [violationOf ''D0'' 70000 None 0, violationOf ''D1'' 50000 (Some ada) 700000]"
      1 0]
  by (simp add: example_defs sqrt_le_numeral)

subsection \<open>C7: removeTooOldViolations\<close>

text \<open>
  C7: the removal pass at time \<open>now\<close> keeps, in their order, exactly the violations whose
  \<^verbatim>\<open>latestCaptureDateAndTime\<close> is not before \<open>now\<close> minus 10 minutes (600000 ms): one seen
  10 minutes and 1 second ago goes, one seen 9 minutes 59 seconds ago stays, and so does
  one seen exactly 10 minutes ago.
\<close>

theorem removeTooOldViolations_exact:
  "violations (removeTooOldViolations now s) =
     filter (\<lambda>v. \<not> latestCaptureDateAndTime v < now - 10 * 60 * 1000) (violations s)"
proof -
  have "stillFresh now = (\<lambda>v. \<not> latestCaptureDateAndTime v < now - 10 * 60 * 1000)"
    by (auto simp: stillFresh_def msToStoreFor_def minToStoreViolationFor_def fun_eq_iff)
  then show ?thesis
    by (simp add: removeTooOldViolations_def)
qed

theorem removeTooOldViolations_exact_witness:
  "violations
     (removeTooOldViolations 1000000
        (tracking [violationOf ''A'' 0 None (1000000 - 601000),
                   violationOf ''B'' 0 None (1000000 - 599000),
                   violationOf ''C'' 0 None (1000000 - 600000)])) =
   [violationOf ''B'' 0 None 401000, violationOf ''C'' 0 None 400000]"
  using removeTooOldViolations_exact
    [of 1000000 "tracking [violationOf ''A'' 0 None (1000000 - 601000),
                   violationOf ''B'' 0 None (1000000 - 599000),
                   violationOf ''C'' 0 None (1000000 - 600000)]"]
  by (simp add: tracking_def violationOf_def newMonitor_def)

subsection \<open>C8: a pilot batch that fails as a whole\<close>

text \<open>
  C8: when a call of \<^verbatim>\<open>checkNewViolations\<close> gets as far as the pilot lookups and
  \<^verbatim>\<open>fetchPilots\<close> returns \<^verbatim>\<open>null\<close> instead of an array, the call ends with the violations
  as they were (nothing pushed, no distance and no date changed), and with
  \<^verbatim>\<open>_lastUpdatedAt\<close>, the throttle and its timers as they were.
\<close>

theorem failed_pilot_batch_changes_nothing:
  assumes "\<not> throttle s"
    and "dronesResponse net = Parsed droneReport"
    and "fetchPilots (pilotResponse net)
           (map fst (tooCloseDistPerNewDrone (violations s) (drones droneReport))) = None"
  shows "violations (snd (checkNewViolations net s)) = violations s \<and>
         lastUpdatedAt (snd (checkNewViolations net s)) = lastUpdatedAt s \<and>
         throttle (snd (checkNewViolations net s)) = throttle s \<and>
         timeouts (snd (checkNewViolations net s)) = timeouts s"
proof (cases "length (drones droneReport) < 2 \<or> tooCloseDistPerDrone (drones droneReport) = []")
  case True
  with check_few_drones(1) [OF assms(1,2)] show ?thesis by simp
next
  case False
  then have "2 \<le> length (drones droneReport)"
    and "tooCloseDistPerDrone (drones droneReport) \<noteq> []" by simp_all
  from check_array [OF assms(1,2) this] assms(3) show ?thesis
    by (simp add: Let_def)
qed

theorem failed_pilot_batch_changes_nothing_witness:
  "fetchPilots (\<lambda>i sn. Fulfilled 200 None) [''D2''] = None \<and>
   violations
     (snd (checkNewViolations
        (answers 3000 [droneAt ''D1'' 250000 250000, droneAt ''D2'' 250000 250000]
           (\<lambda>i sn. Fulfilled 200 None))
        (tracking [violationOf ''D1'' 50000 None 1000]))) =
   [violationOf ''D1'' 50000 None 1000] \<and>
   lastUpdatedAt
     (snd (checkNewViolations
        (answers 3000 [droneAt ''D1'' 250000 250000, droneAt ''D2'' 250000 250000]
           (\<lambda>i sn. Fulfilled 200 None))
        (tracking [violationOf ''D1'' 50000 None 1000]))) = None \<and>
   requests
     (snd (checkNewViolations
        (answers 3000 [droneAt ''D1'' 250000 250000, droneAt ''D2'' 250000 250000]
           (\<lambda>i sn. Fulfilled 200 None))
        (tracking [violationOf ''D1'' 50000 None 1000]))) = [dronesUrl, pilotUrl ''D2'']"
proof -
  have p: "fetchPilots (\<lambda>i sn. Fulfilled 200 None) [''D2''] = None"
    by (simp add: fetchPilots_def allSettled_def enumerate_eq_zip)
  have n: "map fst (tooCloseDistPerNewDrone
      (violations (tracking [violationOf ''D1'' 50000 None 1000]))
      [droneAt ''D1'' 250000 250000, droneAt ''D2'' 250000 250000]) = [''D2'']"
    by (simp add: example_defs)
  have r: "requests
     (snd (checkNewViolations
        (answers 3000 [droneAt ''D1'' 250000 250000, droneAt ''D2'' 250000 250000]
           (\<lambda>i sn. Fulfilled 200 None))
        (tracking [violationOf ''D1'' 50000 None 1000]))) = [dronesUrl, pilotUrl ''D2'']"
    by (simp add: example_defs)
  from failed_pilot_batch_changes_nothing
    [of "tracking [violationOf ''D1'' 50000 None 1000]"
      "answers 3000 [droneAt ''D1'' 250000 250000, droneAt ''D2'' 250000 250000]
           (\<lambda>i sn. Fulfilled 200 None)"
      "\<lparr>snapshotTimestamp = 3000,
       drones = [droneAt ''D1'' 250000 250000, droneAt ''D2'' 250000 250000]\<rparr>"] p n r
  show ?thesis
    by (simp add: answers_def tracking_def newMonitor_def)
qed

subsection \<open>C9: fetchPilots, position by position\<close>

text \<open>
  C9 reads: for every list of serial numbers \<^verbatim>\<open>fetchPilots\<close> returns an array of the same
  length and order, with the pilot where the lookup succeeded and \<^verbatim>\<open>null\<close> where it
  failed or had no success status; one identifier never affects the others and never
  ends the batch.

  \<^verbatim>\<open>fetchPilots\<close> gives \<^verbatim>\<open>null\<close> at the position of a lookup that is rejected or has a status
  other than 200, and goes on. A lookup that is fulfilled with status 200 and a body that
  is \<^verbatim>\<open>null\<close> is not caught in this way: the destructuring of \<^verbatim>\<open>response.data\<close> throws inside
  \<^verbatim>\<open>results.map\<close>, and the \<^verbatim>\<open>catch\<close> of \<^verbatim>\<open>fetchPilots\<close> returns \<^verbatim>\<open>null\<close> for the whole batch.
  Below, the lookup of D2 gives a pilot each time; when that of D1 is rejected or has
  status 204 the result is an array with \<^verbatim>\<open>null\<close> and the pilot of D2, and when that of D1
  has status 200 and a \<^verbatim>\<open>null\<close> body the result is \<^verbatim>\<open>null\<close>, the pilot of D2 lost.
\<close>

theorem fetchPilots_null_body_aborts_batch:
  "fetchPilots
     (\<lambda>i sn. if sn = ''D1'' then Rejected else Fulfilled 200 (Some ada))
     [''D1'', ''D2''] = Some [None, Some ada] \<and>
   fetchPilots
     (\<lambda>i sn. if sn = ''D1'' then Fulfilled 204 None else Fulfilled 200 (Some ada))
     [''D1'', ''D2''] = Some [None, Some ada] \<and>
   fetchPilots
     (\<lambda>i sn. if sn = ''D1'' then Fulfilled 200 None else Fulfilled 200 (Some ada))
     [''D1'', ''D2''] = None"
  by (simp add: fetchPilots_def allSettled_def enumerate_eq_zip)

subsection \<open>C10: the cooldown after status 429\<close>



end
